theory Spec2Isabelle
  imports Main "HOL-Library.Sublist"
begin

section \<open>Python strings\<close>

text \<open>
  A Python \<open>str\<close> is a sequence of Unicode code points: \<open>len\<close>, slicing and \<open>split\<close>
  count code points, and the source uses characters beyond ASCII (the bullet U+2022 and
  several emoji). A string is therefore a list of code points, and a literal of the
  source is written \<open>lit ''...''\<close> for its ASCII part, with the other code points given
  by number.
\<close>

type_synonym codepoint = nat
type_synonym pystr = "codepoint list"

definition lit :: "string \<Rightarrow> pystr" where
  "lit s = map of_char s"

text \<open>The bullet \<open>U+2022\<close>, written as a literal in \<open>tools.py\<close>.\<close>

definition bullet :: codepoint where
  "bullet = 8226"

text \<open>
  What the source takes from Python's Unicode database: \<open>str.lower\<close>, and the character
  classes \<open>\d\<close> and \<open>\s\<close> of the \<open>re\<close> module. \<open>str.lower\<close> is a function on whole
  strings (it can change the length of a string and looks at context), and \<open>\d\<close> is the
  Unicode category Nd, so they are parameters of the model. \<open>ascii_unicode\<close> is what they
  are on ASCII text.
\<close>

record unicode =
  str_lower :: "pystr \<Rightarrow> pystr"
  re_digit :: "codepoint \<Rightarrow> bool"
  re_space :: "codepoint \<Rightarrow> bool"

definition ascii_lower :: "codepoint \<Rightarrow> codepoint" where
  "ascii_lower c = (if 65 \<le> c \<and> c \<le> 90 then c + 32 else c)"

definition ascii_unicode :: unicode where
  "ascii_unicode =
     \<lparr> str_lower = map ascii_lower,
       re_digit = (\<lambda>c. 48 \<le> c \<and> c \<le> 57),
       re_space = (\<lambda>c. c = 32 \<or> (9 \<le> c \<and> c \<le> 13) \<or> (28 \<le> c \<and> c \<le> 31)) \<rparr>"

text \<open>\<open>sub in s\<close>: \<open>sub\<close> occurs in \<open>s\<close> as a contiguous run; the empty string occurs in every string.\<close>

fun contains :: "pystr \<Rightarrow> pystr \<Rightarrow> bool" where
  "contains sub [] = (sub = [])"
| "contains sub (c # cs) = (prefix sub (c # cs) \<or> contains sub cs)"

text \<open>
  \<open>s.split(sep)\<close> for a separator of one character, which is how the source calls it:
  the segments between the occurrences of \<open>sep\<close>, empty ones included.
\<close>

fun split_on :: "codepoint \<Rightarrow> pystr \<Rightarrow> pystr list" where
  "split_on sep [] = [[]]"
| "split_on sep (c # cs) =
     (if c = sep then [] # split_on sep cs
      else (case split_on sep cs of
              [] \<Rightarrow> [[c]]
            | seg # segs \<Rightarrow> (c # seg) # segs))"

text \<open>\<open>sep.join(xs)\<close>.\<close>

fun join :: "pystr \<Rightarrow> pystr list \<Rightarrow> pystr" where
  "join sep [] = []"
| "join sep [x] = x"
| "join sep (x # y # ys) = x @ sep @ join sep (y # ys)"

text \<open>\<open>str(n)\<close> for a non-negative integer, as an f-string formats a \<open>len\<close>.\<close>

function str_nat :: "nat \<Rightarrow> pystr" where
  "str_nat n = (if n < 10 then [48 + n] else str_nat (n div 10) @ [48 + n mod 10])"
  by pat_completeness auto
termination
  by (relation "measure id") auto

declare str_nat.simps [simp del]

section \<open>The decision combiner\<close>

text \<open>The nested helpers \<open>count_points\<close> and \<open>check_signals\<close> of \<open>make_investment_decision\<close>.\<close>

definition count_points :: "pystr \<Rightarrow> nat" where
  "count_points points =
     (if contains [bullet] points then length (split_on bullet points) else 1)"

definition check_signals :: "unicode \<Rightarrow> pystr \<Rightarrow> pystr list \<Rightarrow> bool" where
  "check_signals U text keywords = list_ex (\<lambda>word. contains word (str_lower U text)) keywords"

definition bull_keywords :: "pystr list" where
  "bull_keywords = [lit ''growth'', lit ''profit'', lit ''upgrade'', lit ''strong'']"

definition bear_keywords :: "pystr list" where
  "bear_keywords = [lit ''risk'', lit ''decline'', lit ''warning'', lit ''concern'']"

text \<open>The f-string that \<open>make_investment_decision\<close> returns; U+1F3AF is the leading emoji.\<close>

definition decision_text :: "unicode \<Rightarrow> pystr \<Rightarrow> pystr \<Rightarrow> pystr \<Rightarrow> nat \<Rightarrow> nat \<Rightarrow> pystr" where
  "decision_text U stock_symbol recommendation confidence bull_score bear_score =
     [127919] @ lit '' FINAL DECISION for '' @ stock_symbol @ lit '': '' @ recommendation @ lit ''\<newline>''
     @ lit ''Confidence Level: '' @ confidence @ lit ''\<newline>''
     @ lit ''Bull Arguments: '' @ str_nat bull_score @ lit '' points\<newline>''
     @ lit ''Bear Arguments: '' @ str_nat bear_score @ lit '' points\<newline>''
     @ lit ''Recommendation: Based on current analysis, '' @ str_lower U recommendation
     @ lit '' position''"

definition make_investment_decision :: "unicode \<Rightarrow> pystr \<Rightarrow> pystr \<Rightarrow> pystr \<Rightarrow> pystr" where
  "make_investment_decision U stock_symbol bull_points bear_points =
     (let bull_score = count_points bull_points;
          bear_score = count_points bear_points;
          strong_bull_signals = check_signals U bull_points bull_keywords;
          strong_bear_signals = check_signals U bear_points bear_keywords;
          (recommendation, confidence) =
            (if bull_score > bear_score \<and> strong_bull_signals then (lit ''BUY'', lit ''High'')
             else if bear_score > bull_score \<and> strong_bear_signals
               then (lit ''SELL/AVOID'', lit ''High'')
             else (lit ''HOLD/RESEARCH MORE'', lit ''Medium''))
      in decision_text U stock_symbol recommendation confidence bull_score bear_score)"

section \<open>Regular expressions\<close>

text \<open>
  The two patterns of the source are built from character classes, literals, \<open>+\<close>, \<open>*\<close>
  and \<open>?\<close>. A matcher takes the input from the current position on and returns every
  input that a match can leave, in the order in which the backtracking matcher of \<open>re\<close>
  tries them: a greedy repetition tries the longest run first, an optional part is tried
  before it is skipped, and a sequence tries the alternatives of its second part for each
  alternative of its first. The head of the list is the match that \<open>re\<close> finds.
\<close>

type_synonym matcher = "pystr \<Rightarrow> pystr list"

definition one :: "(codepoint \<Rightarrow> bool) \<Rightarrow> matcher" where
  "one p s = (case s of [] \<Rightarrow> [] | c # cs \<Rightarrow> if p c then [cs] else [])"

fun many1 :: "(codepoint \<Rightarrow> bool) \<Rightarrow> matcher" where
  "many1 p [] = []"
| "many1 p (c # cs) = (if p c then many1 p cs @ [cs] else [])"

definition many :: "(codepoint \<Rightarrow> bool) \<Rightarrow> matcher" where
  "many p s = many1 p s @ [s]"

definition literal :: "pystr \<Rightarrow> matcher" where
  "literal w s = (if prefix w s then [drop (length w) s] else [])"

definition seq :: "matcher \<Rightarrow> matcher \<Rightarrow> matcher" where
  "seq m1 m2 s = concat (map m2 (m1 s))"

definition opt :: "matcher \<Rightarrow> matcher" where
  "opt m s = m s @ [s]"

text \<open>\<open>\d+(?:\.\d+)?\<close>, the body of the capturing group of both patterns.\<close>

definition number :: "unicode \<Rightarrow> matcher" where
  "number U = seq (many1 (re_digit U)) (opt (seq (one (\<lambda>c. c = 46)) (many1 (re_digit U))))"

text \<open>\<open>\s*%\<close>, what follows the group in both patterns.\<close>

definition percent_sign :: "unicode \<Rightarrow> matcher" where
  "percent_sign U = seq (many (re_space U)) (one (\<lambda>c. c = 37))"

text \<open>
  \<open>(\d+(?:\.\d+)?)\s*%\<close> at the start of \<open>s\<close>: the text of group 1 and the input after
  the match, for every way to match.
\<close>

definition percent_matches :: "unicode \<Rightarrow> pystr \<Rightarrow> (pystr \<times> pystr) list" where
  "percent_matches U s =
     concat (map (\<lambda>r. map (\<lambda>rest. (take (length s - length r) s, rest)) (percent_sign U r))
                 (number U s))"

text \<open>\<open>down\s+(\d+(?:\.\d+)?)\s*%\<close> at the start of \<open>s\<close>, in the same way.\<close>

definition down_matches :: "unicode \<Rightarrow> pystr \<Rightarrow> (pystr \<times> pystr) list" where
  "down_matches U s =
     concat (map (\<lambda>r0.
        concat (map (\<lambda>r. map (\<lambda>rest. (take (length r0 - length r) r0, rest)) (percent_sign U r))
                    (number U r0)))
       (seq (literal (lit ''down'')) (many1 (re_space U)) s))"

text \<open>
  \<open>re.findall\<close> for a pattern with one group: scan from the left; where the pattern
  matches, keep the group and go on after the match; elsewhere move one character on.
  A match that consumes nothing also moves one character on.
\<close>

function findall :: "(pystr \<Rightarrow> (pystr \<times> pystr) list) \<Rightarrow> pystr \<Rightarrow> pystr list" where
  "findall m s =
     (case m s of
        [] \<Rightarrow> (case s of [] \<Rightarrow> [] | c # cs \<Rightarrow> findall m cs)
      | (g, rest) # others \<Rightarrow>
          (if length rest < length s then g # findall m rest
           else (case s of [] \<Rightarrow> [g] | c # cs \<Rightarrow> g # findall m cs)))"
  by pat_completeness auto
termination
  by (relation "measure (\<lambda>(m, s). length s)") auto

declare findall.simps [simp del]

definition findall_percent :: "unicode \<Rightarrow> pystr \<Rightarrow> pystr list" where
  "findall_percent U content = findall (percent_matches U) content"

definition findall_down :: "unicode \<Rightarrow> pystr \<Rightarrow> pystr list" where
  "findall_down U content = findall (down_matches U) content"

text \<open>
  The pattern as the specification words it, \<open>(\d+(?:\.\d+)?)%\<close>: the number immediately
  followed by the percent sign. It is not in the source; the pattern of the source is
  compared with it.
\<close>

definition immediate_percent_matches :: "unicode \<Rightarrow> pystr \<Rightarrow> (pystr \<times> pystr) list" where
  "immediate_percent_matches U s =
     concat (map (\<lambda>r. map (\<lambda>rest. (take (length s - length r) s, rest)) (one (\<lambda>c. c = 37) r))
                 (number U s))"

definition findall_percent_immediate :: "unicode \<Rightarrow> pystr \<Rightarrow> pystr list" where
  "findall_percent_immediate U content = findall (immediate_percent_matches U) content"

text \<open>
  A percentage at the start of a text: the text begins with the token \<open>p\<close>, which is one
  or more digits optionally followed by a dot and one or more digits, then any number of
  whitespace characters, then the percent sign, and \<open>rest\<close> is what follows the sign.
\<close>

definition percent_at_start :: "unicode \<Rightarrow> pystr \<Rightarrow> pystr \<Rightarrow> pystr \<Rightarrow> bool" where
  "percent_at_start U s p rest \<longleftrightarrow>
     (\<exists>ds frac ws.
        s = ds @ frac @ ws @ [37] @ rest \<and> p = ds @ frac \<and>
        ds \<noteq> [] \<and> (\<forall>c \<in> set ds. re_digit U c) \<and>
        (frac = [] \<or> (\<exists>fs. frac = [46] @ fs \<and> fs \<noteq> [] \<and> (\<forall>c \<in> set fs. re_digit U c))) \<and>
        (\<forall>c \<in> set ws. re_space U c))"

text \<open>An occurrence of a percentage in a text: a percentage at the start of one of its suffixes.\<close>

definition percent_occurrence :: "unicode \<Rightarrow> pystr \<Rightarrow> pystr \<Rightarrow> bool" where
  "percent_occurrence U content p \<longleftrightarrow>
     (\<exists>pre t rest. content = pre @ t \<and> percent_at_start U t p rest)"

text \<open>
  What the Unicode database guarantees of the classes the patterns use: no character is
  both a digit and whitespace, and the dot and the percent sign are neither.
\<close>

definition classes_disjoint :: "unicode \<Rightarrow> bool" where
  "classes_disjoint U \<longleftrightarrow>
     (\<forall>c. \<not> (re_digit U c \<and> re_space U c)) \<and>
     \<not> re_digit U 46 \<and> \<not> re_digit U 37 \<and> \<not> re_space U 46 \<and> \<not> re_space U 37"

section \<open>The search tools\<close>

text \<open>
  A search result is a dictionary read with \<open>result.get(key, default)\<close>. The search
  client \<open>web_search.invoke\<close> is the external collaborator: a function from the query to
  the results, or to the exception it raises, which no tool catches.
\<close>

type_synonym result = "pystr \<rightharpoonup> pystr"

definition get :: "result \<Rightarrow> pystr \<Rightarrow> pystr \<Rightarrow> pystr" where
  "get d k dflt = (case d k of None \<Rightarrow> dflt | Some v \<Rightarrow> v)"

text \<open>The loop of \<open>search_and_extract_signals\<close>, with the list \<open>signals\<close> as accumulator.\<close>

fun signals_loop :: "unicode \<Rightarrow> pystr list \<Rightarrow> result list \<Rightarrow> pystr list \<Rightarrow> pystr list" where
  "signals_loop U keywords [] signals = signals"
| "signals_loop U keywords (result # results) signals =
     (let content = get result (lit ''content'') []
      in signals_loop U keywords results
           (if list_ex (\<lambda>word. contains word (str_lower U content)) keywords
            then signals @ [[bullet] @ lit '' '' @ get result (lit ''title'') (lit ''News'')
                              @ lit '': '' @ take 200 content @ lit ''...'']
            else signals))"

definition search_and_extract_signals ::
  "unicode \<Rightarrow> (pystr \<Rightarrow> 'e + result list) \<Rightarrow> pystr \<Rightarrow> pystr \<Rightarrow> pystr list \<Rightarrow> pystr \<Rightarrow> pystr
     \<Rightarrow> 'e + pystr" where
  "search_and_extract_signals U web_search stock_symbol query keywords prefix_str default_msg =
     (case web_search query of
        Inl e \<Rightarrow> Inl e
      | Inr results \<Rightarrow>
          (let signals = signals_loop U keywords results []
           in if signals \<noteq> []
              then Inr (prefix_str @ lit '' for '' @ stock_symbol @ lit '':\<newline>''
                        @ join (lit ''\<newline>'') (take 2 signals))
              else Inr (prefix_str @ lit '' '' @ stock_symbol @ lit '': '' @ default_msg)))"

text \<open>The bull tools. U+1F402 and U+1F4C8 are the emoji of their prefixes.\<close>

definition find_positive_news ::
  "unicode \<Rightarrow> (pystr \<Rightarrow> 'e + result list) \<Rightarrow> pystr \<Rightarrow> 'e + pystr" where
  "find_positive_news U web_search stock_symbol =
     (let query = stock_symbol @ lit '' stock positive news earnings growth revenue profit upgrade'';
          keywords = [lit ''profit'', lit ''growth'', lit ''upgrade'', lit ''beat'', lit ''strong'',
                      lit ''positive'', lit ''bullish''];
          prefix_str = [128002] @ lit '' POSITIVE SIGNALS'';
          dflt = lit ''Limited positive news found, but that could mean it'' @ [39]
                 @ lit ''s undervalued!''
      in search_and_extract_signals U web_search stock_symbol query keywords prefix_str dflt)"

definition growth_terms :: "pystr list" where
  "growth_terms = [lit ''increase'', lit ''growth'', lit ''up'', lit ''higher'', lit ''rose'',
                   lit ''gained'']"

fun growth_loop :: "unicode \<Rightarrow> result list \<Rightarrow> pystr list \<Rightarrow> pystr list" where
  "growth_loop U [] growth_indicators = growth_indicators"
| "growth_loop U (result # results) growth_indicators =
     (let content = str_lower U (get result (lit ''content'') []);
          percentages = findall_percent U content;
          with_percentages =
            (if percentages \<noteq> []
             then growth_indicators @ map (\<lambda>p. p @ lit ''%'') (take 3 percentages)
             else growth_indicators);
          with_trend =
            (if list_ex (\<lambda>term. contains term content) growth_terms
             then with_percentages @ [lit ''Positive trend detected'']
             else with_percentages)
      in growth_loop U results with_trend)"

definition calculate_growth_potential ::
  "unicode \<Rightarrow> (pystr \<Rightarrow> 'e + result list) \<Rightarrow> pystr \<Rightarrow> 'e + pystr" where
  "calculate_growth_potential U web_search stock_symbol =
     (case web_search (stock_symbol
             @ lit '' stock price earnings revenue growth rate market cap'') of
        Inl e \<Rightarrow> Inl e
      | Inr results \<Rightarrow>
          (let growth_indicators = growth_loop U results []
           in if growth_indicators \<noteq> []
              then Inr ([128200] @ lit '' GROWTH POTENTIAL for '' @ stock_symbol @ lit '': ''
                        @ join (lit '', '') (take 3 growth_indicators))
              else Inr ([128200] @ lit '' '' @ stock_symbol
                        @ lit '': Growth data limited, but could indicate overlooked opportunity!'')))"

text \<open>The bear tools. U+1F43B, and U+26A0 U+FE0F, are the emoji of their prefixes.\<close>

definition find_negative_news ::
  "unicode \<Rightarrow> (pystr \<Rightarrow> 'e + result list) \<Rightarrow> pystr \<Rightarrow> 'e + pystr" where
  "find_negative_news U web_search stock_symbol =
     (let query = stock_symbol
            @ lit '' stock negative news risks decline losses downgrade warning'';
          keywords = [lit ''loss'', lit ''decline'', lit ''risk'', lit ''warning'', lit ''downgrade'',
                      lit ''weak'', lit ''negative'', lit ''bearish'', lit ''concern''];
          prefix_str = [128059] @ lit '' WARNING SIGNALS'';
          dflt = lit ''No major red flags found, but market volatility always poses risks!''
      in search_and_extract_signals U web_search stock_symbol query keywords prefix_str dflt)"

definition risk_terms :: "pystr list" where
  "risk_terms = [lit ''risk'', lit ''volatile'', lit ''uncertain'', lit ''concern'', lit ''debt'',
                 lit ''competition'']"

fun risk_loop :: "unicode \<Rightarrow> result list \<Rightarrow> pystr list \<Rightarrow> pystr list" where
  "risk_loop U [] risk_factors = risk_factors"
| "risk_loop U (result # results) risk_factors =
     (let content = str_lower U (get result (lit ''content'') []);
          with_risk =
            (if list_ex (\<lambda>term. contains term content) risk_terms
             then risk_factors @ [lit ''Market risk identified'']
             else risk_factors);
          negative_changes = findall_down U content;
          with_changes =
            (if negative_changes \<noteq> []
             then with_risk @ map (\<lambda>p. lit ''Down '' @ p @ lit ''%'') (take 2 negative_changes)
             else with_risk)
      in risk_loop U results with_changes)"

definition assess_market_risks ::
  "unicode \<Rightarrow> (pystr \<Rightarrow> 'e + result list) \<Rightarrow> pystr \<Rightarrow> 'e + pystr" where
  "assess_market_risks U web_search stock_symbol =
     (case web_search (stock_symbol
             @ lit '' stock market risks volatility debt competition regulatory concerns'') of
        Inl e \<Rightarrow> Inl e
      | Inr results \<Rightarrow>
          (let risk_factors = risk_loop U results []
           in if risk_factors \<noteq> []
              then Inr ([9888, 65039] @ lit '' RISK ASSESSMENT for '' @ stock_symbol @ lit '': ''
                        @ join (lit '', '') (take 3 risk_factors))
              else Inr ([9888, 65039] @ lit '' '' @ stock_symbol
                        @ lit '': Risk factors unclear - proceed with extreme caution!'')))"

text \<open>The chairman's tool \<open>get_current_market_sentiment\<close>. U+1F4CA is the emoji of its prefix.\<close>

fun sentiment_loop :: "unicode \<Rightarrow> pystr list \<Rightarrow> result list \<Rightarrow> pystr list \<Rightarrow> pystr list" where
  "sentiment_loop U keywords [] sentiment_data = sentiment_data"
| "sentiment_loop U keywords (result # results) sentiment_data =
     (let content = get result (lit ''content'') [];
          title = get result (lit ''title'') []
      in sentiment_loop U keywords results
           (if list_ex (\<lambda>word. contains word (str_lower U (title @ content))) keywords
            then sentiment_data @ [[bullet] @ lit '' '' @ title @ lit '': '' @ take 150 content
                                     @ lit ''...'']
            else sentiment_data))"

definition get_current_market_sentiment ::
  "unicode \<Rightarrow> (pystr \<Rightarrow> 'e + result list) \<Rightarrow> pystr \<Rightarrow> 'e + pystr" where
  "get_current_market_sentiment U web_search stock_symbol =
     (let query = stock_symbol
            @ lit '' stock current price today market sentiment analyst rating'';
          keywords = [lit ''price'', lit ''trading'', lit ''market'', lit ''analyst''];
          prefix_str = [128202] @ lit '' CURRENT MARKET DATA'';
          dflt = lit ''Market data limited - need more information for decision''
      in case web_search query of
           Inl e \<Rightarrow> Inl e
         | Inr results \<Rightarrow>
             (let sentiment_data = sentiment_loop U keywords results []
              in if sentiment_data \<noteq> []
                 then Inr (prefix_str @ lit '' for '' @ stock_symbol @ lit '':\<newline>''
                           @ join (lit ''\<newline>'') (take 2 sentiment_data))
                 else Inr (prefix_str @ lit '' '' @ stock_symbol @ lit '': '' @ dflt)))"

section \<open>Strings: containment and splitting\<close>

lemma contains_iff_sublist: "contains sub s \<longleftrightarrow> sublist sub s"
  by (induction s) (auto simp: sublist_Cons_right)

lemma contains_iff: "contains sub s \<longleftrightarrow> (\<exists>pre post. s = pre @ sub @ post)"
  by (simp add: contains_iff_sublist sublist_def)

lemma contains_single: "contains [c] s \<longleftrightarrow> c \<in> set s"
  by (induction s) auto

lemma split_on_not_Nil: "split_on sep s \<noteq> []"
  by (induction s) (auto split: list.splits)

lemma length_split_on: "length (split_on sep s) = Suc (count_list s sep)"
  by (induction s) (auto split: list.splits simp: split_on_not_Nil)

lemma split_on_no_sep: "seg \<in> set (split_on sep s) \<Longrightarrow> sep \<notin> set seg"
  by (induction s arbitrary: seg) (auto split: list.splits if_splits)

lemma join_Cons: "xs \<noteq> [] \<Longrightarrow> join sep (x # xs) = x @ sep @ join sep xs"
  by (cases xs) auto

lemma join_split_on: "join [sep] (split_on sep s) = s"
proof (induction s)
  case Nil
  show ?case by simp
next
  case (Cons c cs)
  obtain seg segs where segs: "split_on sep cs = seg # segs"
    using split_on_not_Nil [of sep cs] by (cases "split_on sep cs") auto
  show ?case
  proof (cases "c = sep")
    case True
    with Cons show ?thesis by (simp add: join_Cons split_on_not_Nil)
  next
    case False
    with Cons segs show ?thesis by (cases segs) auto
  qed
qed

lemma count_points_eq:
  "count_points s = (if bullet \<in> set s then count_list s bullet + 1 else 1)"
  by (simp add: count_points_def contains_single length_split_on)

lemma count_points_bullet: "bullet \<in> set s \<Longrightarrow> 2 \<le> count_points s"
  using count_list_0_iff [of s bullet]
  by (cases "count_list s bullet") (auto simp: count_points_eq)

lemma check_signals_iff:
  "check_signals U s keywords \<longleftrightarrow>
     (\<exists>k \<in> set keywords. \<exists>pre post. str_lower U s = pre @ k @ post)"
  by (simp add: check_signals_def list_ex_iff contains_iff)

section \<open>The decision combiner: counting points and the decision policy\<close>

text \<open>
  C1. For every symbol and every pair of bull and bear texts, \<open>make_investment_decision\<close>
  follows the decision policy in order: BUY with confidence High when the bull text has
  more points than the bear text and its lower-cased form contains one of growth, profit,
  upgrade, strong; otherwise SELL/AVOID with confidence High when the bear text has more
  points and its lower-cased form contains one of risk, decline, warning, concern;
  otherwise HOLD/RESEARCH MORE with confidence Medium. The returned text is given in
  full: the action after the symbol, the confidence on the second line, the two scores
  on the third and fourth, the action in lower case on the last.
\<close>

theorem make_investment_decision_policy:
  "make_investment_decision U symbol bull bear =
     (if count_points bull > count_points bear \<and>
         (\<exists>k \<in> {lit ''growth'', lit ''profit'', lit ''upgrade'', lit ''strong''}.
            \<exists>pre post. str_lower U bull = pre @ k @ post)
      then [127919] @ lit '' FINAL DECISION for '' @ symbol @ lit '': '' @ lit ''BUY''
           @ lit ''\<newline>'' @ lit ''Confidence Level: '' @ lit ''High'' @ lit ''\<newline>''
           @ lit ''Bull Arguments: '' @ str_nat (count_points bull) @ lit '' points\<newline>''
           @ lit ''Bear Arguments: '' @ str_nat (count_points bear) @ lit '' points\<newline>''
           @ lit ''Recommendation: Based on current analysis, '' @ str_lower U (lit ''BUY'')
           @ lit '' position''
      else if count_points bear > count_points bull \<and>
         (\<exists>k \<in> {lit ''risk'', lit ''decline'', lit ''warning'', lit ''concern''}.
            \<exists>pre post. str_lower U bear = pre @ k @ post)
      then [127919] @ lit '' FINAL DECISION for '' @ symbol @ lit '': '' @ lit ''SELL/AVOID''
           @ lit ''\<newline>'' @ lit ''Confidence Level: '' @ lit ''High'' @ lit ''\<newline>''
           @ lit ''Bull Arguments: '' @ str_nat (count_points bull) @ lit '' points\<newline>''
           @ lit ''Bear Arguments: '' @ str_nat (count_points bear) @ lit '' points\<newline>''
           @ lit ''Recommendation: Based on current analysis, '' @ str_lower U (lit ''SELL/AVOID'')
           @ lit '' position''
      else [127919] @ lit '' FINAL DECISION for '' @ symbol @ lit '': '' @ lit ''HOLD/RESEARCH MORE''
           @ lit ''\<newline>'' @ lit ''Confidence Level: '' @ lit ''Medium'' @ lit ''\<newline>''
           @ lit ''Bull Arguments: '' @ str_nat (count_points bull) @ lit '' points\<newline>''
           @ lit ''Bear Arguments: '' @ str_nat (count_points bear) @ lit '' points\<newline>''
           @ lit ''Recommendation: Based on current analysis, ''
           @ str_lower U (lit ''HOLD/RESEARCH MORE'') @ lit '' position'')"
proof -
  have bull: "check_signals U bull bull_keywords \<longleftrightarrow>
      (\<exists>k \<in> {lit ''growth'', lit ''profit'', lit ''upgrade'', lit ''strong''}.
         \<exists>pre post. str_lower U bull = pre @ k @ post)"
    unfolding check_signals_iff by (simp add: bull_keywords_def)
  have bear: "check_signals U bear bear_keywords \<longleftrightarrow>
      (\<exists>k \<in> {lit ''risk'', lit ''decline'', lit ''warning'', lit ''concern''}.
         \<exists>pre post. str_lower U bear = pre @ k @ post)"
    unfolding check_signals_iff by (simp add: bear_keywords_def)
  show ?thesis
    unfolding make_investment_decision_def Let_def bull bear decision_text_def
    by (simp only: if_distrib [of "case_prod f" for f] prod.case cong: if_cong)
qed

theorem make_investment_decision_policy_witness:
  "make_investment_decision ascii_unicode (lit ''ACME'')
       (bullet # lit '' Strong GROWTH'') (lit ''nothing'')
     = [127919] @ lit '' FINAL DECISION for ACME: BUY\<newline>Confidence Level: High\<newline>Bull Arguments: 2 points\<newline>Bear Arguments: 1 points\<newline>Recommendation: Based on current analysis, buy position'' \<and>
   make_investment_decision ascii_unicode (lit ''ACME'')
       (lit ''growth'') (bullet # lit '' Debt RISK'')
     = [127919] @ lit '' FINAL DECISION for ACME: SELL/AVOID\<newline>Confidence Level: High\<newline>Bull Arguments: 1 points\<newline>Bear Arguments: 2 points\<newline>Recommendation: Based on current analysis, sell/avoid position'' \<and>
   make_investment_decision ascii_unicode (lit ''ACME'')
       (bullet # lit '' growth'') (bullet # lit '' risk'')
     = [127919] @ lit '' FINAL DECISION for ACME: HOLD/RESEARCH MORE\<newline>Confidence Level: Medium\<newline>Bull Arguments: 2 points\<newline>Bear Arguments: 2 points\<newline>Recommendation: Based on current analysis, hold/research more position''"
proof -
  have c: "count_points (bullet # lit '' Strong GROWTH'') = 2" "count_points (lit ''nothing'') = 1"
    "count_points (lit ''growth'') = 1" "count_points (bullet # lit '' Debt RISK'') = 2"
    "count_points (bullet # lit '' growth'') = 2" "count_points (bullet # lit '' risk'') = 2"
    by (simp_all add: count_points_def lit_def bullet_def)
  have k: "contains (lit ''growth'') (str_lower ascii_unicode (bullet # lit '' Strong GROWTH''))"
    "contains (lit ''risk'') (str_lower ascii_unicode (bullet # lit '' Debt RISK''))"
    by (simp_all add: lit_def ascii_unicode_def ascii_lower_def bullet_def)
  have n: "str_nat 1 = lit ''1''" "str_nat 2 = lit ''2''"
    by (simp_all add: str_nat.simps lit_def)
  have l: "str_lower ascii_unicode (lit ''BUY'') = lit ''buy''"
    "str_lower ascii_unicode (lit ''SELL/AVOID'') = lit ''sell/avoid''"
    "str_lower ascii_unicode (lit ''HOLD/RESEARCH MORE'') = lit ''hold/research more''"
    by (simp_all add: lit_def ascii_unicode_def ascii_lower_def)
  note a = make_investment_decision_policy [of ascii_unicode "lit ''ACME''"
        "bullet # lit '' Strong GROWTH''" "lit ''nothing''", unfolded contains_iff [symmetric] c n l]
  note b = make_investment_decision_policy [of ascii_unicode "lit ''ACME''"
        "lit ''growth''" "bullet # lit '' Debt RISK''", unfolded contains_iff [symmetric] c n l]
  note d = make_investment_decision_policy [of ascii_unicode "lit ''ACME''"
        "bullet # lit '' growth''" "bullet # lit '' risk''", unfolded contains_iff [symmetric] c n l]
  show ?thesis using a b d k by (simp add: lit_def)
qed

text \<open>
  C2. A text without the bullet, the empty text included, counts as exactly one point. A
  text with the bullet counts as many points as splitting it on the bullet gives
  segments, which is one more than its number of bullets: the segments are the
  bullet-free pieces that give the text back when joined with the bullet, so an empty
  piece before a leading or after a trailing bullet counts too.
\<close>

theorem count_points_segments:
  "(bullet \<notin> set s \<longrightarrow> count_points s = 1) \<and>
   (bullet \<in> set s \<longrightarrow>
      count_points s = length (split_on bullet s) \<and>
      count_points s = count_list s bullet + 1) \<and>
   join [bullet] (split_on bullet s) = s \<and>
   (\<forall>seg \<in> set (split_on bullet s). bullet \<notin> set seg) \<and>
   count_points [] = 1"
  by (simp add: count_points_def contains_single length_split_on join_split_on split_on_no_sep)

theorem count_points_segments_witness:
  "bullet \<in> set (bullet # lit '' A '' @ [bullet] @ lit '' B '' @ [bullet] @ lit '' C'') \<and>
   count_points (bullet # lit '' A '' @ [bullet] @ lit '' B '' @ [bullet] @ lit '' C'') = 4 \<and>
   split_on bullet (bullet # lit '' A '' @ [bullet] @ lit '' B '' @ [bullet] @ lit '' C'')
     = [[], lit '' A '', lit '' B '', lit '' C''] \<and>
   bullet \<notin> set (lit ''no bullets here'') \<and> count_points (lit ''no bullets here'') = 1"
  using count_points_segments
      [of "bullet # lit '' A '' @ [bullet] @ lit '' B '' @ [bullet] @ lit '' C''"]
    count_points_segments [of "lit ''no bullets here''"]
  by (simp add: lit_def bullet_def)

text \<open>
  C7. With an empty bull text and an empty bear text both scores are 1, neither keyword
  check matches (the lower-cased empty text is empty and no keyword is), and the result
  is the HOLD/RESEARCH MORE branch with confidence Medium. \<open>make_investment_decision\<close> is
  a total function of its three strings, so every input is accepted and gives one result.
\<close>

theorem empty_texts_hold:
  assumes "str_lower U [] = []"
  shows "count_points [] = 1 \<and>
    \<not> check_signals U [] bull_keywords \<and> \<not> check_signals U [] bear_keywords \<and>
    make_investment_decision U symbol [] [] =
      decision_text U symbol (lit ''HOLD/RESEARCH MORE'') (lit ''Medium'') 1 1"
  using assms
  by (simp add: count_points_def check_signals_def bull_keywords_def bear_keywords_def
      make_investment_decision_def lit_def)

theorem empty_texts_hold_witness:
  "str_lower ascii_unicode [] = [] \<and> count_points [] = 1 \<and>
    \<not> check_signals ascii_unicode [] bull_keywords \<and>
    \<not> check_signals ascii_unicode [] bear_keywords \<and>
    make_investment_decision ascii_unicode (lit ''ACME'') [] [] =
      decision_text ascii_unicode (lit ''ACME'') (lit ''HOLD/RESEARCH MORE'') (lit ''Medium'') 1 1"
proof -
  have h: "str_lower ascii_unicode [] = []" by (simp add: ascii_unicode_def)
  show ?thesis using h empty_texts_hold [OF h, of "lit ''ACME''"] by simp
qed

text \<open>
  C9. Every text counts at least one point and every text with a bullet at least two, so
  a text with a bullet outscores every text without one, and both scores that
  \<open>make_investment_decision\<close> reports are positive.
\<close>

theorem count_points_positive:
  "1 \<le> count_points s \<and>
   (bullet \<in> set s \<longrightarrow> 2 \<le> count_points s) \<and>
   (bullet \<in> set a \<and> bullet \<notin> set b \<longrightarrow> count_points b < count_points a) \<and>
   (\<exists>recommendation confidence.
      make_investment_decision U symbol bull bear =
        decision_text U symbol recommendation confidence (count_points bull) (count_points bear) \<and>
      0 < count_points bull \<and> 0 < count_points bear)"
proof -
  have pos: "1 \<le> count_points t" for t by (simp add: count_points_eq)
  have two: "bullet \<in> set t \<longrightarrow> 2 \<le> count_points t" for t
    using count_points_bullet by blast
  have out: "bullet \<in> set a \<and> bullet \<notin> set b \<longrightarrow> count_points b < count_points a"
    using two [of a] by (auto simp: count_points_eq)
  have dec: "\<exists>recommendation confidence.
      make_investment_decision U symbol bull bear =
        decision_text U symbol recommendation confidence (count_points bull) (count_points bear)"
    unfolding make_investment_decision_def Let_def
    by (simp only: if_distrib [of "case_prod f" for f] prod.case cong: if_cong) auto
  show ?thesis using pos [of s] two [of s] out dec pos [of bull] pos [of bear]
    by (simp add: Suc_le_eq)
qed

theorem count_points_positive_witness:
  "bullet \<in> set (bullet # lit '' Upgrade'') \<and>
   bullet \<notin> set (lit ''Limited positive news found'') \<and>
   count_points (lit ''Limited positive news found'') = 1 \<and>
   count_points (bullet # lit '' Upgrade'') = 2 \<and>
   count_points (lit ''Limited positive news found'') < count_points (bullet # lit '' Upgrade'')"
  using count_points_positive [of "bullet # lit '' Upgrade''" "bullet # lit '' Upgrade''"
      "lit ''Limited positive news found''"]
  by (simp add: lit_def bullet_def count_points_def)

section \<open>The search tools: what the loops collect\<close>

lemma signals_loop_eq:
  "signals_loop U keywords results signals =
     signals @ map (\<lambda>r. [bullet] @ lit '' '' @ get r (lit ''title'') (lit ''News'') @ lit '': ''
                          @ take 200 (get r (lit ''content'') []) @ lit ''...'')
       (filter (\<lambda>r. \<exists>k \<in> set keywords. \<exists>pre post.
                  str_lower U (get r (lit ''content'') []) = pre @ k @ post) results)"
  by (induction results arbitrary: signals) (simp_all add: Let_def list_ex_iff contains_iff)

lemma sentiment_loop_eq:
  "sentiment_loop U keywords results sentiment_data =
     sentiment_data @ map (\<lambda>r. [bullet] @ lit '' '' @ get r (lit ''title'') [] @ lit '': ''
                          @ take 150 (get r (lit ''content'') []) @ lit ''...'')
       (filter (\<lambda>r. \<exists>k \<in> set keywords. \<exists>pre post.
                  str_lower U (get r (lit ''title'') [] @ get r (lit ''content'') []) = pre @ k @ post)
          results)"
  by (induction results arbitrary: sentiment_data) (simp_all add: Let_def list_ex_iff contains_iff)

lemmas regex_defs = findall_percent_def findall_down_def findall.simps percent_matches_def
  down_matches_def number_def percent_sign_def seq_def opt_def one_def many_def literal_def

lemma growth_loop_example:
  "growth_loop ascii_unicode [[lit ''content'' \<mapsto> lit ''Up 1% 2% 3% 4%'']] [] =
     [lit ''1%'', lit ''2%'', lit ''3%'', lit ''Positive trend detected'']"
  by (simp add: regex_defs growth_terms_def get_def lit_def ascii_unicode_def ascii_lower_def)

lemma risk_loop_example:
  "risk_loop ascii_unicode [[lit ''content'' \<mapsto> lit ''Debt; down 5%, down 2.5 %, down 7%'']] [] =
     [lit ''Market risk identified'', lit ''Down 5%'', lit ''Down 2.5%'']"
  by (simp add: regex_defs risk_terms_def get_def lit_def ascii_unicode_def ascii_lower_def)

lemma signals_loop_example:
  "signals_loop ascii_unicode [lit ''up'']
     [[lit ''title'' \<mapsto> lit ''A'', lit ''content'' \<mapsto> lit ''Up''],
      [lit ''title'' \<mapsto> lit ''B'', lit ''content'' \<mapsto> lit ''up''],
      [lit ''title'' \<mapsto> lit ''C'', lit ''content'' \<mapsto> lit ''UP'']] [] =
     [[bullet] @ lit '' A: Up...'', [bullet] @ lit '' B: up...'', [bullet] @ lit '' C: UP...'']"
  by (simp add: get_def lit_def ascii_unicode_def ascii_lower_def)

section \<open>The search tools: output format, caps and empty results\<close>

text \<open>
  C4. When the search returns \<open>results\<close>, \<open>search_and_extract_signals\<close> selects the
  results whose lower-cased content contains one of the keywords and formats each as the
  bullet, a space, the title (\<open>News\<close> when the result has none), a colon and a space, the
  first 200 characters of the content as it was returned, and three dots. With at
  least one selected result it returns \<open><prefix> for <symbol>:\<close>, a newline and the
  first two entries joined by a newline; with none, \<open><prefix> <symbol>: <default>\<close>.
\<close>

theorem search_and_extract_signals_format:
  assumes "web_search query = Inr results"
  shows "search_and_extract_signals U web_search symbol query keywords prefix_str default_msg =
    (let hits = filter (\<lambda>r. \<exists>k \<in> set keywords. \<exists>pre post.
                   str_lower U (get r (lit ''content'') []) = pre @ k @ post) results;
         entries = map (\<lambda>r. [bullet] @ lit '' '' @ get r (lit ''title'') (lit ''News'') @ lit '': ''
                          @ take 200 (get r (lit ''content'') []) @ lit ''...'') hits
     in if hits \<noteq> []
        then Inr (prefix_str @ lit '' for '' @ symbol @ lit '':\<newline>''
                  @ join (lit ''\<newline>'') (take 2 entries))
        else Inr (prefix_str @ lit '' '' @ symbol @ lit '': '' @ default_msg))"
  using assms by (simp add: search_and_extract_signals_def signals_loop_eq Let_def)

theorem search_and_extract_signals_format_witness:
  "search_and_extract_signals ascii_unicode
     (\<lambda>q. Inr [[lit ''title'' \<mapsto> lit ''Weather'', lit ''content'' \<mapsto> lit ''Sunny''],
                [lit ''title'' \<mapsto> lit ''ACME'', lit ''content'' \<mapsto> lit ''Record PROFIT''],
                [lit ''content'' \<mapsto> lit ''Nothing'']] :: unit + result list)
     (lit ''ACME'') (lit ''ACME news'') [lit ''profit''] (lit ''SIGNALS'') (lit ''none'')
   = Inr (lit ''SIGNALS for ACME:\<newline>'' @ [bullet] @ lit '' ACME: Record PROFIT...'')"
  using search_and_extract_signals_format
    [of "\<lambda>q. Inr [[lit ''title'' \<mapsto> lit ''Weather'', lit ''content'' \<mapsto> lit ''Sunny''],
                [lit ''title'' \<mapsto> lit ''ACME'', lit ''content'' \<mapsto> lit ''Record PROFIT''],
                [lit ''content'' \<mapsto> lit ''Nothing'']] :: unit + result list"
        "lit ''ACME news''" _ ascii_unicode "lit ''ACME''" "[lit ''profit'']" "lit ''SIGNALS''"
        "lit ''none''", OF refl, unfolded contains_iff [symmetric]]
  by (simp add: get_def lit_def ascii_unicode_def ascii_lower_def)

text \<open>
  C5. However many results the search returns, \<open>search_and_extract_signals\<close> joins at
  most 2 of the entries it collected into its output, and \<open>calculate_growth_potential\<close>
  and \<open>assess_market_risks\<close> at most 3.
\<close>

theorem joined_entries_capped:
  "(web_search query = Inr results \<longrightarrow>
      (let joined = take 2 (signals_loop U kws results [])
       in length joined \<le> 2 \<and>
          search_and_extract_signals U web_search symbol query kws prefix_str default_msg =
            Inr (if joined \<noteq> []
                 then prefix_str @ lit '' for '' @ symbol @ lit '':\<newline>''
                      @ join (lit ''\<newline>'') joined
                 else prefix_str @ lit '' '' @ symbol @ lit '': '' @ default_msg))) \<and>
   (web_search (symbol @ lit '' stock price earnings revenue growth rate market cap'')
      = Inr results \<longrightarrow>
      (let joined = take 3 (growth_loop U results [])
       in length joined \<le> 3 \<and>
          calculate_growth_potential U web_search symbol =
            Inr (if joined \<noteq> []
                 then [128200] @ lit '' GROWTH POTENTIAL for '' @ symbol @ lit '': ''
                      @ join (lit '', '') joined
                 else [128200] @ lit '' '' @ symbol
                      @ lit '': Growth data limited, but could indicate overlooked opportunity!''))) \<and>
   (web_search (symbol @ lit '' stock market risks volatility debt competition regulatory concerns'')
      = Inr results \<longrightarrow>
      (let joined = take 3 (risk_loop U results [])
       in length joined \<le> 3 \<and>
          assess_market_risks U web_search symbol =
            Inr (if joined \<noteq> []
                 then [9888, 65039] @ lit '' RISK ASSESSMENT for '' @ symbol @ lit '': ''
                      @ join (lit '', '') joined
                 else [9888, 65039] @ lit '' '' @ symbol
                      @ lit '': Risk factors unclear - proceed with extreme caution!'')))"
proof (intro conjI impI)
  assume "web_search query = Inr results"
  then show "let joined = take 2 (signals_loop U kws results [])
       in length joined \<le> 2 \<and>
          search_and_extract_signals U web_search symbol query kws prefix_str default_msg =
            Inr (if joined \<noteq> []
                 then prefix_str @ lit '' for '' @ symbol @ lit '':\<newline>''
                      @ join (lit ''\<newline>'') joined
                 else prefix_str @ lit '' '' @ symbol @ lit '': '' @ default_msg)"
    by (simp add: search_and_extract_signals_def Let_def)
next
  assume "web_search (symbol @ lit '' stock price earnings revenue growth rate market cap'')
      = Inr results"
  then show "let joined = take 3 (growth_loop U results [])
       in length joined \<le> 3 \<and>
          calculate_growth_potential U web_search symbol =
            Inr (if joined \<noteq> []
                 then [128200] @ lit '' GROWTH POTENTIAL for '' @ symbol @ lit '': ''
                      @ join (lit '', '') joined
                 else [128200] @ lit '' '' @ symbol
                      @ lit '': Growth data limited, but could indicate overlooked opportunity!'')"
    by (simp add: calculate_growth_potential_def Let_def)
next
  assume "web_search (symbol @ lit '' stock market risks volatility debt competition regulatory concerns'')
      = Inr results"
  then show "let joined = take 3 (risk_loop U results [])
       in length joined \<le> 3 \<and>
          assess_market_risks U web_search symbol =
            Inr (if joined \<noteq> []
                 then [9888, 65039] @ lit '' RISK ASSESSMENT for '' @ symbol @ lit '': ''
                      @ join (lit '', '') joined
                 else [9888, 65039] @ lit '' '' @ symbol
                      @ lit '': Risk factors unclear - proceed with extreme caution!'')"
    by (simp add: assess_market_risks_def Let_def)
qed

theorem joined_entries_capped_witness:
  "search_and_extract_signals ascii_unicode
     (\<lambda>q. Inr [[lit ''title'' \<mapsto> lit ''A'', lit ''content'' \<mapsto> lit ''Up''],
                [lit ''title'' \<mapsto> lit ''B'', lit ''content'' \<mapsto> lit ''up''],
                [lit ''title'' \<mapsto> lit ''C'', lit ''content'' \<mapsto> lit ''UP'']] :: unit + result list)
     (lit ''ACME'') (lit ''ACME news'') [lit ''up''] (lit ''SIGNALS'') (lit ''none'')
     = Inr (lit ''SIGNALS for ACME:\<newline>'' @ [bullet] @ lit '' A: Up...\<newline>'' @ [bullet]
            @ lit '' B: up...'') \<and>
   calculate_growth_potential ascii_unicode
     (\<lambda>q. Inr [[lit ''content'' \<mapsto> lit ''Up 1% 2% 3% 4%'']] :: unit + result list) (lit ''ACME'')
     = Inr ([128200] @ lit '' GROWTH POTENTIAL for ACME: 1%, 2%, 3%'') \<and>
   assess_market_risks ascii_unicode
     (\<lambda>q. Inr [[lit ''content'' \<mapsto> lit ''Debt; down 5%, down 2.5 %, down 7%'']]
            :: unit + result list) (lit ''ACME'')
     = Inr ([9888, 65039] @ lit '' RISK ASSESSMENT for ACME: Market risk identified, Down 5%, Down 2.5%'')"
proof -
  note a = joined_entries_capped [where U = ascii_unicode and symbol = "lit ''ACME''"
      and web_search = "\<lambda>q. Inr [[lit ''title'' \<mapsto> lit ''A'', lit ''content'' \<mapsto> lit ''Up''],
                [lit ''title'' \<mapsto> lit ''B'', lit ''content'' \<mapsto> lit ''up''],
                [lit ''title'' \<mapsto> lit ''C'', lit ''content'' \<mapsto> lit ''UP'']] :: unit + result list"
      and query = "lit ''ACME news''" and kws = "[lit ''up'']"
      and prefix_str = "lit ''SIGNALS''" and default_msg = "lit ''none''",
      THEN conjunct1, rule_format, OF refl, unfolded signals_loop_example Let_def]
  note b = joined_entries_capped [where U = ascii_unicode and symbol = "lit ''ACME''"
      and web_search = "\<lambda>q. Inr [[lit ''content'' \<mapsto> lit ''Up 1% 2% 3% 4%'']]
                          :: unit + result list",
      THEN conjunct2, THEN conjunct1, rule_format, OF refl, unfolded growth_loop_example Let_def]
  note c = joined_entries_capped [where U = ascii_unicode and symbol = "lit ''ACME''"
      and web_search = "\<lambda>q. Inr [[lit ''content'' \<mapsto> lit ''Debt; down 5%, down 2.5 %, down 7%'']]
                          :: unit + result list",
      THEN conjunct2, THEN conjunct2, rule_format, OF refl, unfolded risk_loop_example Let_def]
  show ?thesis using a b c by (simp add: lit_def)
qed

text \<open>
  C6. When the search returns no result, \<open>search_and_extract_signals\<close> raises nothing and
  returns \<open><prefix> <symbol>: <default>\<close>, which contains the symbol.
\<close>

theorem search_and_extract_signals_no_results:
  assumes "web_search query = Inr []"
  shows "search_and_extract_signals U web_search symbol query keywords prefix_str default_msg =
           Inr (prefix_str @ lit '' '' @ symbol @ lit '': '' @ default_msg) \<and>
         (\<exists>out. search_and_extract_signals U web_search symbol query keywords prefix_str default_msg
                  = Inr out \<and> sublist symbol out)"
proof -
  have "search_and_extract_signals U web_search symbol query keywords prefix_str default_msg =
           Inr (prefix_str @ lit '' '' @ symbol @ lit '': '' @ default_msg)"
    using assms by (simp add: search_and_extract_signals_def)
  moreover have "sublist symbol (prefix_str @ lit '' '' @ symbol @ lit '': '' @ default_msg)"
    unfolding sublist_def by (metis append.assoc)
  ultimately show ?thesis by simp
qed

theorem search_and_extract_signals_no_results_witness:
  "search_and_extract_signals ascii_unicode (\<lambda>q. Inr [] :: unit + result list)
     (lit ''ACME'') (lit ''ACME news'') [lit ''profit''] (lit ''SIGNALS'') (lit ''none'')
   = Inr (lit ''SIGNALS ACME: none'')"
  using search_and_extract_signals_no_results
    [of "\<lambda>q. Inr [] :: unit + result list" "lit ''ACME news''" ascii_unicode "lit ''ACME''"
        "[lit ''profit'']" "lit ''SIGNALS''" "lit ''none''", OF refl]
  by (simp add: lit_def)

text \<open>
  C8. For the symbol ACME, when the search returns the single result with title
  \<open>ACME beats estimates\<close> and content \<open>ACME reported strong profit growth this quarter...\<close>,
  \<open>find_positive_news\<close> returns the positive-signals header for ACME, a newline, and the
  entry of that result: a text that starts as the scenario says and ends with the three
  dots that every entry gets. Lower-casing is only asked to do on this content what it
  does on ASCII text.
\<close>

theorem find_positive_news_acme:
  assumes "web_search (lit ''ACME stock positive news earnings growth revenue profit upgrade'') =
      Inr [[lit ''title'' \<mapsto> lit ''ACME beats estimates'',
            lit ''content'' \<mapsto> lit ''ACME reported strong profit growth this quarter...'']]"
    and "str_lower U (lit ''ACME reported strong profit growth this quarter...'') =
           lit ''acme reported strong profit growth this quarter...''"
  shows "find_positive_news U web_search (lit ''ACME'') =
      Inr ([128002] @ lit '' POSITIVE SIGNALS for ACME:\<newline>'' @ [bullet]
           @ lit '' ACME beats estimates: ACME reported strong profit growth this quarter...''
           @ lit ''...'')"
  using assms
  by (simp add: find_positive_news_def search_and_extract_signals_def get_def lit_def)

theorem find_positive_news_acme_witness:
  "find_positive_news ascii_unicode
     (\<lambda>q. Inr [[lit ''title'' \<mapsto> lit ''ACME beats estimates'',
                 lit ''content'' \<mapsto> lit ''ACME reported strong profit growth this quarter...'']]
            :: unit + result list)
     (lit ''ACME'') =
      Inr ([128002] @ lit '' POSITIVE SIGNALS for ACME:\<newline>'' @ [bullet]
           @ lit '' ACME beats estimates: ACME reported strong profit growth this quarter...''
           @ lit ''...'')"
  using find_positive_news_acme
    [of "\<lambda>q. Inr [[lit ''title'' \<mapsto> lit ''ACME beats estimates'',
                 lit ''content'' \<mapsto> lit ''ACME reported strong profit growth this quarter...'']]
            :: unit + result list" ascii_unicode, OF refl]
  by (simp add: lit_def ascii_unicode_def ascii_lower_def)

text \<open>
  C10. \<open>get_current_market_sentiment\<close> selects a result when the lower-cased concatenation
  of its title and its content contains one of price, trading, market, analyst, so a
  keyword that only the title has selects the result; it formats an entry with the first
  150 characters of the content and three dots, and joins at most the first two entries.
\<close>

theorem get_current_market_sentiment_format:
  assumes "web_search (symbol @ lit '' stock current price today market sentiment analyst rating'')
             = Inr results"
  shows "get_current_market_sentiment U web_search symbol =
    (let hits = filter (\<lambda>r. \<exists>k \<in> {lit ''price'', lit ''trading'', lit ''market'', lit ''analyst''}.
                   \<exists>pre post. str_lower U (get r (lit ''title'') [] @ get r (lit ''content'') [])
                                 = pre @ k @ post) results;
         entries = map (\<lambda>r. [bullet] @ lit '' '' @ get r (lit ''title'') [] @ lit '': ''
                          @ take 150 (get r (lit ''content'') []) @ lit ''...'') hits
     in if hits \<noteq> []
        then Inr ([128202] @ lit '' CURRENT MARKET DATA for '' @ symbol @ lit '':\<newline>''
                  @ join (lit ''\<newline>'') (take 2 entries))
        else Inr ([128202] @ lit '' CURRENT MARKET DATA '' @ symbol
                  @ lit '': Market data limited - need more information for decision''))"
  using assms
  by (simp add: get_current_market_sentiment_def sentiment_loop_eq Let_def lit_def)

theorem get_current_market_sentiment_format_witness:
  "get_current_market_sentiment ascii_unicode
     (\<lambda>q. Inr [[lit ''title'' \<mapsto> lit ''Market update'', lit ''content'' \<mapsto> replicate 160 120],
                [lit ''title'' \<mapsto> lit ''Weather'', lit ''content'' \<mapsto> lit ''Sunny'']]
            :: unit + result list)
     (lit ''ACME'')
   = Inr ([128202] @ lit '' CURRENT MARKET DATA for ACME:\<newline>'' @ [bullet]
          @ lit '' Market update: '' @ replicate 150 120 @ lit ''...'')"
  using get_current_market_sentiment_format
    [of "\<lambda>q. Inr [[lit ''title'' \<mapsto> lit ''Market update'', lit ''content'' \<mapsto> replicate 160 120],
                [lit ''title'' \<mapsto> lit ''Weather'', lit ''content'' \<mapsto> lit ''Sunny'']]
            :: unit + result list" "lit ''ACME''" _ ascii_unicode, OF refl,
       unfolded contains_iff [symmetric]]
  by (simp add: get_def lit_def ascii_unicode_def ascii_lower_def)

section \<open>Regular expressions: what the matchers accept\<close>

lemma one_iff: "r \<in> set (one p s) \<longleftrightarrow> (\<exists>c. p c \<and> s = c # r)"
  by (cases s) (auto simp: one_def)

lemma many1_iff:
  "r \<in> set (many1 p s) \<longleftrightarrow> (\<exists>w. w \<noteq> [] \<and> (\<forall>c \<in> set w. p c) \<and> s = w @ r)"
proof (induction s)
  case Nil
  show ?case by simp
next
  case (Cons c cs)
  show ?case
  proof (cases "p c")
    case False
    have "\<not> (\<exists>w. w \<noteq> [] \<and> (\<forall>c \<in> set w. p c) \<and> c # cs = w @ r)"
    proof
      assume "\<exists>w. w \<noteq> [] \<and> (\<forall>c \<in> set w. p c) \<and> c # cs = w @ r"
      then obtain w where w: "w \<noteq> []" "\<forall>c \<in> set w. p c" "c # cs = w @ r" by blast
      then obtain w' where "w = c # w'" by (cases w) auto
      with w False show False by simp
    qed
    with False show ?thesis by simp
  next
    case True
    show ?thesis
    proof
      assume "r \<in> set (many1 p (c # cs))"
      with True have "r \<in> set (many1 p cs) \<or> r = cs" by auto
      then show "\<exists>w. w \<noteq> [] \<and> (\<forall>c \<in> set w. p c) \<and> c # cs = w @ r"
      proof
        assume "r \<in> set (many1 p cs)"
        with Cons obtain w where "w \<noteq> []" "\<forall>c \<in> set w. p c" "cs = w @ r" by blast
        with True have "c # w \<noteq> [] \<and> (\<forall>x \<in> set (c # w). p x) \<and> c # cs = (c # w) @ r" by simp
        then show ?thesis by blast
      next
        assume "r = cs"
        with True have "[c] \<noteq> [] \<and> (\<forall>x \<in> set [c]. p x) \<and> c # cs = [c] @ r" by simp
        then show ?thesis by blast
      qed
    next
      assume "\<exists>w. w \<noteq> [] \<and> (\<forall>c \<in> set w. p c) \<and> c # cs = w @ r"
      then obtain w where w: "w \<noteq> []" "\<forall>c \<in> set w. p c" "c # cs = w @ r" by blast
      then obtain w' where w': "w = c # w'" by (cases w) auto
      with w have cs: "cs = w' @ r" and pw': "\<forall>c \<in> set w'. p c" by simp_all
      show "r \<in> set (many1 p (c # cs))"
      proof (cases "w' = []")
        case True
        with cs \<open>p c\<close> show ?thesis by simp
      next
        case False
        with cs pw' Cons have "r \<in> set (many1 p cs)" by blast
        with \<open>p c\<close> show ?thesis by simp
      qed
    qed
  qed
qed

lemma many_iff: "r \<in> set (many p s) \<longleftrightarrow> (\<exists>w. (\<forall>c \<in> set w. p c) \<and> s = w @ r)"
proof
  assume "r \<in> set (many p s)"
  then have "r \<in> set (many1 p s) \<or> r = s" by (auto simp: many_def)
  then show "\<exists>w. (\<forall>c \<in> set w. p c) \<and> s = w @ r"
  proof
    assume "r \<in> set (many1 p s)"
    then show ?thesis unfolding many1_iff by blast
  next
    assume "r = s"
    then have "(\<forall>c \<in> set []. p c) \<and> s = [] @ r" by simp
    then show ?thesis by blast
  qed
next
  assume "\<exists>w. (\<forall>c \<in> set w. p c) \<and> s = w @ r"
  then obtain w where w: "\<forall>c \<in> set w. p c" "s = w @ r" by blast
  show "r \<in> set (many p s)"
  proof (cases "w = []")
    case True
    with w show ?thesis by (simp add: many_def)
  next
    case False
    with w have "r \<in> set (many1 p s)" unfolding many1_iff by blast
    then show ?thesis by (simp add: many_def)
  qed
qed

lemma seq_iff: "r \<in> set (seq m1 m2 s) \<longleftrightarrow> (\<exists>r1. r1 \<in> set (m1 s) \<and> r \<in> set (m2 r1))"
  by (auto simp: seq_def)

lemma opt_iff: "r \<in> set (opt m s) \<longleftrightarrow> r \<in> set (m s) \<or> r = s"
  by (auto simp: opt_def)

lemma fraction_iff:
  "r \<in> set (opt (seq (one (\<lambda>c. c = 46)) (many1 (re_digit U))) s) \<longleftrightarrow>
     (\<exists>frac. s = frac @ r \<and>
        (frac = [] \<or> (\<exists>fs. frac = [46] @ fs \<and> fs \<noteq> [] \<and> (\<forall>c \<in> set fs. re_digit U c))))"
  (is "?L \<longleftrightarrow> ?R")
proof
  assume ?L
  then have "(\<exists>r1. r1 \<in> set (one (\<lambda>c. c = 46) s) \<and> r \<in> set (many1 (re_digit U) r1)) \<or> r = s"
    by (simp add: opt_iff seq_iff)
  then show ?R
  proof
    assume "\<exists>r1. r1 \<in> set (one (\<lambda>c. c = 46) s) \<and> r \<in> set (many1 (re_digit U) r1)"
    then obtain r1 where "s = 46 # r1" and "r \<in> set (many1 (re_digit U) r1)"
      by (auto simp: one_iff)
    then obtain fs where "fs \<noteq> []" "\<forall>c \<in> set fs. re_digit U c" "r1 = fs @ r"
      unfolding many1_iff by blast
    with \<open>s = 46 # r1\<close> have "s = ([46] @ fs) @ r \<and> [46] @ fs = [46] @ fs \<and> fs \<noteq> []
        \<and> (\<forall>c \<in> set fs. re_digit U c)" by simp
    then show ?R by blast
  next
    assume "r = s"
    then have "s = [] @ r" by simp
    then show ?R by blast
  qed
next
  assume ?R
  then obtain frac where s: "s = frac @ r"
    and frac: "frac = [] \<or> (\<exists>fs. frac = [46] @ fs \<and> fs \<noteq> [] \<and> (\<forall>c \<in> set fs. re_digit U c))"
    by blast
  from frac show ?L
  proof
    assume "frac = []"
    with s show ?L by (simp add: opt_iff)
  next
    assume "\<exists>fs. frac = [46] @ fs \<and> fs \<noteq> [] \<and> (\<forall>c \<in> set fs. re_digit U c)"
    then obtain fs where fs: "frac = [46] @ fs" "fs \<noteq> []" "\<forall>c \<in> set fs. re_digit U c" by blast
    with s have "fs @ r \<in> set (one (\<lambda>c. c = 46) s)" by (simp add: one_iff)
    moreover from fs have "r \<in> set (many1 (re_digit U) (fs @ r))" unfolding many1_iff by blast
    ultimately show ?L unfolding opt_iff seq_iff by blast
  qed
qed

lemma number_iff:
  "r \<in> set (number U s) \<longleftrightarrow>
     (\<exists>ds frac. s = ds @ frac @ r \<and> ds \<noteq> [] \<and> (\<forall>c \<in> set ds. re_digit U c) \<and>
        (frac = [] \<or> (\<exists>fs. frac = [46] @ fs \<and> fs \<noteq> [] \<and> (\<forall>c \<in> set fs. re_digit U c))))"
  (is "?L \<longleftrightarrow> ?R")
proof
  assume ?L
  then obtain r1 where r1: "r1 \<in> set (many1 (re_digit U) s)"
    and r: "r \<in> set (opt (seq (one (\<lambda>c. c = 46)) (many1 (re_digit U))) r1)"
    unfolding number_def seq_iff [of r] by blast
  from r1 obtain ds where ds: "ds \<noteq> []" "\<forall>c \<in> set ds. re_digit U c" "s = ds @ r1"
    unfolding many1_iff by blast
  from r obtain frac where "r1 = frac @ r"
    "frac = [] \<or> (\<exists>fs. frac = [46] @ fs \<and> fs \<noteq> [] \<and> (\<forall>c \<in> set fs. re_digit U c))"
    unfolding fraction_iff by blast
  with ds show ?R by blast
next
  assume ?R
  then obtain ds frac where s: "s = ds @ frac @ r" and ds: "ds \<noteq> []" "\<forall>c \<in> set ds. re_digit U c"
    and frac: "frac = [] \<or> (\<exists>fs. frac = [46] @ fs \<and> fs \<noteq> [] \<and> (\<forall>c \<in> set fs. re_digit U c))"
    by blast
  from s ds have "frac @ r \<in> set (many1 (re_digit U) s)" unfolding many1_iff by blast
  moreover from frac have "r \<in> set (opt (seq (one (\<lambda>c. c = 46)) (many1 (re_digit U))) (frac @ r))"
    unfolding fraction_iff by blast
  ultimately show ?L unfolding number_def seq_iff [of r] by blast
qed

lemma percent_sign_iff:
  "rest \<in> set (percent_sign U r) \<longleftrightarrow>
     (\<exists>ws. (\<forall>c \<in> set ws. re_space U c) \<and> r = ws @ [37] @ rest)"
  (is "?L \<longleftrightarrow> ?R")
proof
  assume ?L
  then obtain r1 where "r1 \<in> set (many (re_space U) r)" "rest \<in> set (one (\<lambda>c. c = 37) r1)"
    unfolding percent_sign_def seq_iff by blast
  then obtain ws where "\<forall>c \<in> set ws. re_space U c" "r = ws @ r1" "r1 = 37 # rest"
    unfolding many_iff one_iff by blast
  then have "(\<forall>c \<in> set ws. re_space U c) \<and> r = ws @ [37] @ rest" by simp
  then show ?R by blast
next
  assume ?R
  then obtain ws where ws: "\<forall>c \<in> set ws. re_space U c" "r = ws @ [37] @ rest" by blast
  then have "37 # rest \<in> set (many (re_space U) r)" unfolding many_iff by auto
  moreover have "rest \<in> set (one (\<lambda>c. c = 37) (37 # rest))" by (simp add: one_iff)
  ultimately show ?L unfolding percent_sign_def seq_iff by blast
qed

lemma percent_matches_iff:
  "(g, rest) \<in> set (percent_matches U s) \<longleftrightarrow>
     (\<exists>ds frac ws. s = ds @ frac @ ws @ [37] @ rest \<and> g = ds @ frac \<and>
        ds \<noteq> [] \<and> (\<forall>c \<in> set ds. re_digit U c) \<and>
        (frac = [] \<or> (\<exists>fs. frac = [46] @ fs \<and> fs \<noteq> [] \<and> (\<forall>c \<in> set fs. re_digit U c))) \<and>
        (\<forall>c \<in> set ws. re_space U c))"
  (is "?L \<longleftrightarrow> ?R")
proof
  assume ?L
  then obtain r where r: "r \<in> set (number U s)" and rest: "rest \<in> set (percent_sign U r)"
    and g: "g = take (length s - length r) s"
    by (auto simp: percent_matches_def)
  from r obtain ds frac where n: "s = ds @ frac @ r" "ds \<noteq> []" "\<forall>c \<in> set ds. re_digit U c"
    "frac = [] \<or> (\<exists>fs. frac = [46] @ fs \<and> fs \<noteq> [] \<and> (\<forall>c \<in> set fs. re_digit U c))"
    unfolding number_iff by blast
  from rest obtain ws where ws: "\<forall>c \<in> set ws. re_space U c" "r = ws @ [37] @ rest"
    unfolding percent_sign_iff by blast
  from g n(1) have "g = ds @ frac" by simp
  with n ws show ?R by blast
next
  assume ?R
  then obtain ds frac ws where s: "s = ds @ frac @ ws @ [37] @ rest" and g: "g = ds @ frac"
    and n: "ds \<noteq> []" "\<forall>c \<in> set ds. re_digit U c"
    "frac = [] \<or> (\<exists>fs. frac = [46] @ fs \<and> fs \<noteq> [] \<and> (\<forall>c \<in> set fs. re_digit U c))"
    and ws: "\<forall>c \<in> set ws. re_space U c"
    by blast
  define r where "r = ws @ [37] @ rest"
  have "s = ds @ frac @ r" using s by (simp add: r_def)
  with n have r: "r \<in> set (number U s)" unfolding number_iff by blast
  from ws have rest: "rest \<in> set (percent_sign U r)" unfolding percent_sign_iff r_def by blast
  have "g = take (length s - length r) s" using s g by (simp add: r_def)
  with r rest show ?L by (auto simp: percent_matches_def)
qed

lemma findall_member:
  assumes "\<forall>t g rest. (g, rest) \<in> set (m t) \<longrightarrow> suffix rest t"
    and "g \<in> set (findall m s)"
  shows "\<exists>pre t rest. s = pre @ t \<and> (g, rest) \<in> set (m t)"
  using assms
proof (induction m s rule: findall.induct)
  case (1 m s)
  note sfx = "1.prems"(1) and mem = "1.prems"(2)
  show ?case
  proof (cases "m s")
    case Nil
    show ?thesis
    proof (cases s)
      case Nil
      with \<open>m s = []\<close> mem show ?thesis by (simp add: findall.simps)
    next
      case (Cons c cs)
      with \<open>m s = []\<close> mem have "g \<in> set (findall m cs)" by (simp add: findall.simps)
      with "1.IH"(1) [OF \<open>m s = []\<close> Cons sfx] obtain pre t rest
        where "cs = pre @ t" "(g, rest) \<in> set (m t)" by blast
      with Cons have "s = (c # pre) @ t \<and> (g, rest) \<in> set (m t)" by simp
      then show ?thesis by blast
    qed
  next
    case (Cons x others)
    obtain g0 rest0 where x: "x = (g0, rest0)" by (cases x)
    have here: "s = [] @ s \<and> (g0, rest0) \<in> set (m s)" using Cons x by simp
    show ?thesis
    proof (cases "length rest0 < length s")
      case True
      with Cons x mem have "g = g0 \<or> g \<in> set (findall m rest0)"
        by (auto simp: findall.simps [of m s])
      then show ?thesis
      proof
        assume "g = g0"
        with here show ?thesis by blast
      next
        assume "g \<in> set (findall m rest0)"
        with "1.IH"(2) [OF Cons x [symmetric] True sfx] obtain pre t rest
          where pt: "rest0 = pre @ t" "(g, rest) \<in> set (m t)" by blast
        from sfx here obtain w where "s = w @ rest0" unfolding suffix_def by blast
        with pt have "s = (w @ pre) @ t \<and> (g, rest) \<in> set (m t)" by simp
        then show ?thesis by blast
      qed
    next
      case False
      show ?thesis
      proof (cases s)
        case Nil
        with Cons x False mem have "g = g0" by (simp add: findall.simps [of m "[]"])
        with here show ?thesis by blast
      next
        case (Cons c cs)
        with \<open>m s = x # others\<close> x False mem have "g = g0 \<or> g \<in> set (findall m cs)"
          by (auto simp: findall.simps [of m "c # cs"])
        then show ?thesis
        proof
          assume "g = g0"
          with here show ?thesis by blast
        next
          assume "g \<in> set (findall m cs)"
          with "1.IH"(3) [OF \<open>m s = x # others\<close> x [symmetric] False Cons sfx] obtain pre t rest
            where "cs = pre @ t" "(g, rest) \<in> set (m t)" by blast
          with Cons have "s = (c # pre) @ t \<and> (g, rest) \<in> set (m t)" by simp
          then show ?thesis by blast
        qed
      qed
    qed
  qed
qed

lemma findall_finds:
  assumes "s = pre @ t" and "m t \<noteq> []"
  shows "findall m s \<noteq> []"
  using assms
proof (induction pre arbitrary: s)
  case Nil
  then obtain x others where "m s = x # others" by (cases "m s") auto
  then show ?case by (cases x) (simp add: findall.simps [of m s] split: list.splits)
next
  case (Cons c pre)
  show ?case
  proof (cases "m s")
    case Nil
    with Cons.prems have "findall m s = findall m (pre @ t)"
      by (simp add: findall.simps [of m "c # pre @ t"])
    with Cons.IH [OF refl Cons.prems(2)] show ?thesis by simp
  next
    case (Cons x others)
    then show ?thesis by (cases x) (simp add: findall.simps [of m s] split: list.splits)
  qed
qed

lemma percent_matches_suffix:
  "\<forall>t g rest. (g, rest) \<in> set (percent_matches U t) \<longrightarrow> suffix rest t"
  unfolding percent_matches_iff suffix_def by (metis append.assoc)

lemma growth_loop_step:
  "growth_loop U (result # results) acc =
     growth_loop U results
       (acc @ map (\<lambda>p. p @ lit ''%'')
                  (take 3 (findall_percent U (str_lower U (get result (lit ''content'') []))))
            @ (if \<exists>term \<in> set growth_terms.
                    sublist term (str_lower U (get result (lit ''content'') []))
               then [lit ''Positive trend detected''] else []))"
  by (simp add: Let_def list_ex_iff contains_iff_sublist)

lemma percent_at_start_iff:
  "(p, rest) \<in> set (percent_matches U s) \<longleftrightarrow> percent_at_start U s p rest"
  unfolding percent_matches_iff percent_at_start_def ..

lemma run_takeWhile:
  assumes "\<forall>x \<in> set xs. P x" and "ys = [] \<or> \<not> P (hd ys)"
  shows "takeWhile P (xs @ ys) = xs"
proof -
  have "takeWhile P ys = []" using assms(2) by (cases ys) auto
  with assms(1) show ?thesis by simp
qed

lemma run_unique:
  assumes "xs @ ys = xs' @ ys'" "\<forall>x \<in> set xs. P x" "\<forall>x \<in> set xs'. P x"
    "ys = [] \<or> \<not> P (hd ys)" "ys' = [] \<or> \<not> P (hd ys')"
  shows "xs = xs' \<and> ys = ys'"
proof -
  have "xs = takeWhile P (xs @ ys)" using run_takeWhile [OF assms(2,4)] by simp
  also have "\<dots> = takeWhile P (xs' @ ys')" using assms(1) by simp
  also have "\<dots> = xs'" using assms(3,5) by (rule run_takeWhile)
  finally have "xs = xs'" .
  with assms(1) show ?thesis by simp
qed

lemma percent_at_start_unique:
  assumes wf: "classes_disjoint U"
    and a: "percent_at_start U s p rest" and b: "percent_at_start U s p' rest'"
  shows "p = p' \<and> rest = rest'"
proof -
  from wf have nd: "\<not> re_digit U 46" "\<not> re_digit U 37" and ns: "\<not> re_space U 46" "\<not> re_space U 37"
    and dj: "\<And>c. re_space U c \<Longrightarrow> \<not> re_digit U c"
    unfolding classes_disjoint_def by blast+
  from a obtain ds frac ws where a': "s = ds @ frac @ ws @ [37] @ rest" "p = ds @ frac"
    "ds \<noteq> []" "\<forall>c \<in> set ds. re_digit U c"
    "frac = [] \<or> (\<exists>fs. frac = [46] @ fs \<and> fs \<noteq> [] \<and> (\<forall>c \<in> set fs. re_digit U c))"
    "\<forall>c \<in> set ws. re_space U c"
    unfolding percent_at_start_def by blast
  from b obtain ds' frac' ws' where b': "s = ds' @ frac' @ ws' @ [37] @ rest'" "p' = ds' @ frac'"
    "ds' \<noteq> []" "\<forall>c \<in> set ds'. re_digit U c"
    "frac' = [] \<or> (\<exists>fs. frac' = [46] @ fs \<and> fs \<noteq> [] \<and> (\<forall>c \<in> set fs. re_digit U c))"
    "\<forall>c \<in> set ws'. re_space U c"
    unfolding percent_at_start_def by blast
  have tail_nd: "\<not> re_digit U (hd (ws0 @ [37] @ r0))" if "\<forall>c \<in> set ws0. re_space U c" for ws0 r0
    using that nd dj by (cases ws0) auto
  have tail_ns: "\<not> re_space U (hd ([37] @ r0))" for r0 :: pystr
    using ns by simp
  have after_nd: "\<not> re_digit U (hd (f0 @ ws0 @ [37] @ r0))"
    if "f0 = [] \<or> (\<exists>fs. f0 = [46] @ fs \<and> fs \<noteq> [] \<and> (\<forall>c \<in> set fs. re_digit U c))"
      "\<forall>c \<in> set ws0. re_space U c" for f0 ws0 r0
    using that tail_nd [of ws0 r0] nd by auto
  have "ds = ds' \<and> frac @ ws @ [37] @ rest = frac' @ ws' @ [37] @ rest'"
    using run_unique [of ds "frac @ ws @ [37] @ rest" ds' "frac' @ ws' @ [37] @ rest'" "re_digit U"]
      a'(1,4) b'(1,4) after_nd [OF a'(5,6)] after_nd [OF b'(5,6)] by simp
  then have ds: "ds = ds'" and t: "frac @ ws @ [37] @ rest = frac' @ ws' @ [37] @ rest'" by simp_all
  have sp: "ws0 = ws1 \<and> r0 = r1"
    if "ws0 @ [37] @ r0 = ws1 @ [37] @ r1" "\<forall>c \<in> set ws0. re_space U c" "\<forall>c \<in> set ws1. re_space U c"
    for ws0 ws1 r0 r1
    using run_unique [of ws0 "[37] @ r0" ws1 "[37] @ r1" "re_space U"] that ns by simp
  have hd46: "hd (ws0 @ [37] @ r0) \<noteq> 46" if "\<forall>c \<in> set ws0. re_space U c" for ws0 r0
    using that ns by (cases ws0) auto
  from a'(5) b'(5) have "frac = frac' \<and> rest = rest'"
  proof (elim disjE exE conjE)
    assume "frac = []" "frac' = []"
    with t sp [of ws rest ws' rest'] a'(6) b'(6) show ?thesis by simp
  next
    fix fs assume "frac = []" "frac' = [46] @ fs"
    with t hd46 [OF a'(6), of rest] show ?thesis by simp
  next
    fix fs assume "frac = [46] @ fs" "frac' = []"
    with t have "hd (ws' @ [37] @ rest') = 46" by (metis append_Cons hd_append2 list.sel(1) list.simps(3) self_append_conv2 append.simps(1))
    with hd46 [OF b'(6), of rest'] show ?thesis by simp
  next
    fix fs fs' assume f: "frac = [46] @ fs" "\<forall>c \<in> set fs. re_digit U c"
      and f': "frac' = [46] @ fs'" "\<forall>c \<in> set fs'. re_digit U c"
    with t have "fs @ (ws @ [37] @ rest) = fs' @ (ws' @ [37] @ rest')" by simp
    with run_unique [of fs "ws @ [37] @ rest" fs' "ws' @ [37] @ rest'" "re_digit U"]
      f f' tail_nd [OF a'(6), of rest] tail_nd [OF b'(6), of rest']
    have "fs = fs' \<and> ws @ [37] @ rest = ws' @ [37] @ rest'" by simp
    with sp [of ws rest ws' rest'] a'(6) b'(6) f f' show ?thesis by simp
  qed
  with ds a'(2) b'(2) show ?thesis by simp
qed

lemma findall_percent_skip:
  assumes "\<forall>p rest. \<not> percent_at_start U (c # cs) p rest"
  shows "findall_percent U (c # cs) = findall_percent U cs"
proof -
  have "percent_matches U (c # cs) = []"
  proof (cases "percent_matches U (c # cs)")
    case Nil
    then show ?thesis .
  next
    case (Cons x xs)
    then have "(fst x, snd x) \<in> set (percent_matches U (c # cs))" by simp
    with assms show ?thesis unfolding percent_at_start_iff by blast
  qed
  then show ?thesis
    unfolding findall_percent_def by (simp add: findall.simps [of _ "c # cs"])
qed

lemma findall_percent_take:
  assumes "classes_disjoint U" and "percent_at_start U s p rest"
  shows "findall_percent U s = p # findall_percent U rest"
proof -
  from assms(2) have "(p, rest) \<in> set (percent_matches U s)" unfolding percent_at_start_iff .
  then obtain x xs where m: "percent_matches U s = x # xs"
    by (cases "percent_matches U s") auto
  then have "(fst x, snd x) \<in> set (percent_matches U s)" by simp
  then have "percent_at_start U s (fst x) (snd x)" unfolding percent_at_start_iff .
  with percent_at_start_unique [OF assms] have x: "x = (p, rest)" by (cases x) auto
  from assms(2) have "length rest < length s" unfolding percent_at_start_def by auto
  with m x show ?thesis
    unfolding findall_percent_def by (simp add: findall.simps [of _ s])
qed

lemma findall_cong_suffix:
  assumes "\<forall>t g rest. (g, rest) \<in> set (m t) \<longrightarrow> suffix rest t"
    and "\<forall>t. suffix t s \<longrightarrow> m t = m' t"
  shows "findall m s = findall m' s"
  using assms
proof (induction m s rule: findall.induct)
  case (1 m s)
  note sfx = "1.prems"(1) and eq = "1.prems"(2)
  have ms: "m' s = m s" using eq by simp
  show ?case
  proof (cases "m s")
    case Nil
    show ?thesis
    proof (cases s)
      case Nil
      with \<open>m s = []\<close> ms show ?thesis by (simp add: findall.simps [of _ "[]"])
    next
      case (Cons c cs)
      have "\<forall>t. suffix t cs \<longrightarrow> m t = m' t" using eq Cons by (simp add: suffix_ConsI)
      with "1.IH"(1) [OF \<open>m s = []\<close> Cons sfx] have "findall m cs = findall m' cs" by blast
      with \<open>m s = []\<close> ms Cons show ?thesis by (simp add: findall.simps [of _ "c # cs"])
    qed
  next
    case (Cons x others)
    obtain g0 rest0 where x: "x = (g0, rest0)" by (cases x)
    from Cons x have "(g0, rest0) \<in> set (m s)" by simp
    with sfx have sr: "suffix rest0 s" by blast
    show ?thesis
    proof (cases "length rest0 < length s")
      case True
      have "\<forall>t. suffix t rest0 \<longrightarrow> m t = m' t" using eq sr by (meson suffix_order.trans)
      with "1.IH"(2) [OF Cons x [symmetric] True sfx]
      have "findall m rest0 = findall m' rest0" by blast
      with Cons x ms True show ?thesis by (simp add: findall.simps [of _ s])
    next
      case False
      show ?thesis
      proof (cases s)
        case Nil
        with \<open>m s = x # others\<close> x ms False show ?thesis
          by (simp add: findall.simps [of _ "[]"])
      next
        case (Cons c cs)
        have "\<forall>t. suffix t cs \<longrightarrow> m t = m' t" using eq Cons by (simp add: suffix_ConsI)
        with "1.IH"(3) [OF \<open>m s = x # others\<close> x [symmetric] False Cons sfx]
        have "findall m cs = findall m' cs" by blast
        with \<open>m s = x # others\<close> x ms False Cons show ?thesis
          by (simp add: findall.simps [of _ "c # cs"])
      qed
    qed
  qed
qed

lemma percent_sign_no_space:
  assumes "\<forall>c \<in> set r. \<not> re_space U c"
  shows "percent_sign U r = one (\<lambda>c. c = 37) r"
proof -
  have "many1 (re_space U) r = []" using assms by (cases r) auto
  then show ?thesis by (simp add: percent_sign_def seq_def many_def)
qed

lemma percent_matches_no_space:
  assumes "\<forall>c \<in> set s. \<not> re_space U c"
  shows "percent_matches U s = immediate_percent_matches U s"
proof -
  have "percent_sign U r = one (\<lambda>c. c = 37) r" if "r \<in> set (number U s)" for r
  proof -
    from that obtain w where "s = w @ r" unfolding number_iff by (metis append.assoc)
    with assms have "\<forall>c \<in> set r. \<not> re_space U c" by auto
    then show ?thesis by (rule percent_sign_no_space)
  qed
  then show ?thesis
    unfolding percent_matches_def immediate_percent_matches_def
    by (auto intro!: arg_cong [of _ _ concat] map_cong)
qed

lemma findall_percent_no_space:
  assumes "\<forall>c \<in> set content. \<not> re_space U c"
  shows "findall_percent U content = findall_percent_immediate U content"
  unfolding findall_percent_def findall_percent_immediate_def
proof (rule findall_cong_suffix [OF percent_matches_suffix])
  show "\<forall>t. suffix t content \<longrightarrow> percent_matches U t = immediate_percent_matches U t"
  proof (intro allI impI)
    fix t assume "suffix t content"
    then have "set t \<subseteq> set content" by (auto simp: suffix_def)
    with assms have "\<forall>c \<in> set t. \<not> re_space U c" by blast
    then show "percent_matches U t = immediate_percent_matches U t"
      by (rule percent_matches_no_space)
  qed
qed

lemma findall_percent_pinned:
  assumes wf: "classes_disjoint U"
    and nil: "f [] = []"
    and skip: "\<forall>c cs. (\<forall>p rest. \<not> percent_at_start U (c # cs) p rest) \<longrightarrow> f (c # cs) = f cs"
    and take: "\<forall>s p rest. percent_at_start U s p rest \<longrightarrow> f s = p # f rest"
  shows "f s = findall_percent U s"
proof (induction s rule: length_induct)
  case (1 s)
  show ?case
  proof (cases "\<exists>p rest. percent_at_start U s p rest")
    case True
    then obtain p rest where st: "percent_at_start U s p rest" by blast
    then have "length rest < length s" unfolding percent_at_start_def by auto
    with 1 have "f rest = findall_percent U rest" by blast
    with st take findall_percent_take [OF wf st] show ?thesis by simp
  next
    case False
    show ?thesis
    proof (cases s)
      case Nil
      with nil show ?thesis by (simp add: findall_percent_def findall.simps [of _ "[]"] percent_matches_def number_def seq_def)
    next
      case (Cons c cs)
      with 1 have "f cs = findall_percent U cs" by simp
      with False Cons skip findall_percent_skip [of U c cs] show ?thesis by simp
    qed
  qed
qed

section \<open>Percentages in the growth tool\<close>

text \<open>
  C3, as amended. In \<open>calculate_growth_potential\<close> the pattern that extracts percentages is
  \<open>(\d+(?:\.\d+)?)\s*%\<close>: whitespace may stand between the number and the percent sign.
  A percentage is extracted from a lower-cased content exactly when the content contains
  one or more digits, optionally followed by a decimal fraction, then any number of
  whitespace characters, then a percent sign. The extracted tokens are the matches of that
  pattern, in order: the scan takes nothing from the empty text, moves one character on
  where no percentage starts, and where one starts takes its number (without the
  whitespace) and goes on after its percent sign; these three equations have no other
  solution. On a content without whitespace the tokens are the matches of the pattern
  with the percent sign immediately after the number. Each result adds the first three
  of its tokens, each followed by the percent sign, to the indicators. The claim as
  written, with the percent sign immediately after the number on every content, fails
  on the content \<open>5 %\<close>: the source extracts \<open>5\<close> and reports \<open>5%\<close>, the immediate
  pattern finds nothing.
\<close>

theorem percent_tokens_allow_spaces:
  "(findall_percent U content \<noteq> [] \<longleftrightarrow> (\<exists>p. percent_occurrence U content p)) \<and>
   (\<forall>p \<in> set (findall_percent U content). percent_occurrence U content p) \<and>
   findall_percent U [] = [] \<and>
   ((\<forall>p rest. \<not> percent_at_start U (c # cs) p rest) \<longrightarrow>
      findall_percent U (c # cs) = findall_percent U cs) \<and>
   (classes_disjoint U \<and> percent_at_start U s p rest \<longrightarrow>
      findall_percent U s = p # findall_percent U rest) \<and>
   (classes_disjoint U \<and> f [] = [] \<and>
    (\<forall>c cs. (\<forall>p rest. \<not> percent_at_start U (c # cs) p rest) \<longrightarrow> f (c # cs) = f cs) \<and>
    (\<forall>s p rest. percent_at_start U s p rest \<longrightarrow> f s = p # f rest) \<longrightarrow>
      f = findall_percent U) \<and>
   ((\<forall>c \<in> set content. \<not> re_space U c) \<longrightarrow>
      findall_percent U content = findall_percent_immediate U content) \<and>
   growth_loop U (result # results) acc =
     growth_loop U results
       (acc @ map (\<lambda>p. p @ lit ''%'')
                  (take 3 (findall_percent U (str_lower U (get result (lit ''content'') []))))
            @ (if \<exists>term \<in> set growth_terms.
                    sublist term (str_lower U (get result (lit ''content'') []))
               then [lit ''Positive trend detected''] else []))"
proof -
  have mem: "percent_occurrence U content p" if "p \<in> set (findall_percent U content)" for p
  proof -
    from that obtain pre t rest where "content = pre @ t" "(p, rest) \<in> set (percent_matches U t)"
      unfolding findall_percent_def
      using findall_member [OF percent_matches_suffix] by blast
    then show ?thesis unfolding percent_at_start_iff percent_occurrence_def by blast
  qed
  have found: "findall_percent U content \<noteq> []" if "percent_occurrence U content p" for p
  proof -
    from that obtain pre t rest where c: "content = pre @ t" and "percent_at_start U t p rest"
      unfolding percent_occurrence_def by blast
    then have "(p, rest) \<in> set (percent_matches U t)" unfolding percent_at_start_iff by simp
    then have "percent_matches U t \<noteq> []" by auto
    with c show ?thesis unfolding findall_percent_def by (rule findall_finds)
  qed
  have iff: "findall_percent U content \<noteq> [] \<longleftrightarrow> (\<exists>p. percent_occurrence U content p)"
  proof
    assume "findall_percent U content \<noteq> []"
    then obtain p where "p \<in> set (findall_percent U content)"
      by (cases "findall_percent U content") auto
    then show "\<exists>p. percent_occurrence U content p" using mem by blast
  next
    assume "\<exists>p. percent_occurrence U content p"
    then show "findall_percent U content \<noteq> []" using found by blast
  qed
  have nil: "findall_percent U [] = []"
    by (simp add: findall_percent_def findall.simps [of _ "[]"] percent_matches_def number_def
        seq_def)
  have pinned: "classes_disjoint U \<and> f [] = [] \<and>
    (\<forall>c cs. (\<forall>p rest. \<not> percent_at_start U (c # cs) p rest) \<longrightarrow> f (c # cs) = f cs) \<and>
    (\<forall>s p rest. percent_at_start U s p rest \<longrightarrow> f s = p # f rest) \<longrightarrow>
      f = findall_percent U"
    using findall_percent_pinned [of U f] by blast
  show ?thesis
  proof (intro conjI)
    show "findall_percent U content \<noteq> [] \<longleftrightarrow> (\<exists>p. percent_occurrence U content p)" by (rule iff)
    show "\<forall>p \<in> set (findall_percent U content). percent_occurrence U content p"
      using mem by blast
    show "findall_percent U [] = []" by (rule nil)
    show "(\<forall>p rest. \<not> percent_at_start U (c # cs) p rest) \<longrightarrow>
      findall_percent U (c # cs) = findall_percent U cs"
      using findall_percent_skip by blast
    show "classes_disjoint U \<and> percent_at_start U s p rest \<longrightarrow>
      findall_percent U s = p # findall_percent U rest"
      using findall_percent_take by blast
    show "classes_disjoint U \<and> f [] = [] \<and>
    (\<forall>c cs. (\<forall>p rest. \<not> percent_at_start U (c # cs) p rest) \<longrightarrow> f (c # cs) = f cs) \<and>
    (\<forall>s p rest. percent_at_start U s p rest \<longrightarrow> f s = p # f rest) \<longrightarrow>
      f = findall_percent U" by (rule pinned)
    show "(\<forall>c \<in> set content. \<not> re_space U c) \<longrightarrow>
      findall_percent U content = findall_percent_immediate U content"
      using findall_percent_no_space by blast
    show "growth_loop U (result # results) acc =
     growth_loop U results
       (acc @ map (\<lambda>p. p @ lit ''%'')
                  (take 3 (findall_percent U (str_lower U (get result (lit ''content'') []))))
            @ (if \<exists>term \<in> set growth_terms.
                    sublist term (str_lower U (get result (lit ''content'') []))
               then [lit ''Positive trend detected''] else []))"
      by (rule growth_loop_step)
  qed
qed

theorem percent_tokens_allow_spaces_witness:
  "classes_disjoint ascii_unicode \<and>
   percent_at_start ascii_unicode (lit ''12.5 % up 3%'') (lit ''12.5'') (lit '' up 3%'') \<and>
   findall_percent ascii_unicode (lit ''12.5 % up 3%'') = [lit ''12.5'', lit ''3''] \<and>
   findall_percent_immediate ascii_unicode (lit ''up3%,4.5%'') = [lit ''3'', lit ''4.5'']"
proof -
  have wf: "classes_disjoint ascii_unicode"
    by (auto simp: classes_disjoint_def ascii_unicode_def)
  have st: "percent_at_start ascii_unicode (lit ''12.5 % up 3%'') (lit ''12.5'') (lit '' up 3%'')"
    unfolding percent_at_start_iff [symmetric]
    by (simp add: regex_defs lit_def ascii_unicode_def)
  have rest: "findall_percent ascii_unicode (lit '' up 3%'') = [lit ''3'']"
    by (simp add: regex_defs lit_def ascii_unicode_def)
  have ns: "\<forall>c \<in> set (lit ''up3%,4.5%''). \<not> re_space ascii_unicode c"
    by (simp add: lit_def ascii_unicode_def)
  have v: "findall_percent ascii_unicode (lit ''up3%,4.5%'') = [lit ''3'', lit ''4.5'']"
    by (simp add: regex_defs lit_def ascii_unicode_def)
  note t = percent_tokens_allow_spaces [where U = ascii_unicode]
  have "findall_percent ascii_unicode (lit ''12.5 % up 3%'')
          = lit ''12.5'' # findall_percent ascii_unicode (lit '' up 3%'')"
    using t [where s = "lit ''12.5 % up 3%''" and p = "lit ''12.5''" and rest = "lit '' up 3%''"]
      wf st by blast
  moreover have "findall_percent ascii_unicode (lit ''up3%,4.5%'')
          = findall_percent_immediate ascii_unicode (lit ''up3%,4.5%'')"
    using t [where content = "lit ''up3%,4.5%''"] ns by blast
  ultimately show ?thesis using wf st rest v by simp
qed

theorem immediate_percent_counterexample:
  "findall_percent ascii_unicode (str_lower ascii_unicode (lit ''5 %'')) = [lit ''5''] \<and>
   findall_percent_immediate ascii_unicode (str_lower ascii_unicode (lit ''5 %'')) = [] \<and>
   calculate_growth_potential ascii_unicode
     (\<lambda>q. Inr [[lit ''content'' \<mapsto> lit ''5 %'']] :: unit + result list) (lit ''ACME'')
     = Inr ([128200] @ lit '' GROWTH POTENTIAL for ACME: 5%'')"
  by (simp add: regex_defs findall_percent_immediate_def immediate_percent_matches_def
      calculate_growth_potential_def growth_terms_def get_def lit_def ascii_unicode_def
      ascii_lower_def)

end
